theory Spec2Isabelle
  imports Complex_Main "HOL-Library.Multiset"
begin

section \<open>Python values and exceptions\<close>

text \<open>
  The program is Python (\<^verbatim>\<open>main.py\<close>). Exceptions are values of \<open>py_error\<close>; a
  computation that may raise returns \<open>py_error + 'a\<close> with \<open>Inl\<close> for the raised
  exception. \<open>ClientError\<close> stands for whatever the remote text-generation service
  raises (timeout, transport, authentication), with its message.
\<close>

datatype py_error =
    TypeError
  | AttributeError
  | ValueError
  | IndexError
  | UnboundLocalError
  | RuntimeError
  | JSONDecodeError
  | ClientError string

text \<open>
  What \<^verbatim>\<open>json.loads\<close> can return: \<^verbatim>\<open>None\<close>, a bool, a number, a
  \<^verbatim>\<open>str\<close>, a \<^verbatim>\<open>list\<close> or a \<^verbatim>\<open>dict\<close>. A dict is the list of its items in
  insertion order (keys distinct). Numbers are exact rationals: Python's \<^verbatim>\<open>int\<close> embeds
  exactly, a \<^verbatim>\<open>float\<close> is taken at its exact value and the rounding of binary floating
  point is not modelled.
\<close>

datatype json =
    JNull
  | JBool bool
  | JNum rat
  | JStr string
  | JArr "json list"
  | JObj "(string \<times> json) list"

section \<open>Strings\<close>

text \<open>
  A \<^verbatim>\<open>str\<close> is the list of the bytes of its UTF-8 encoding (a lone surrogate encoded
  like any other code point). The ASCII characters are the bytes below 128 and every byte
  of a longer sequence is above 127, so an ASCII word occurs in a text as a \<^verbatim>\<open>str\<close>
  exactly when its bytes occur in the bytes of the text.

  \<^verbatim>\<open>str.lower()\<close> belongs to the language, not to the program: it applies the case
  mappings of Unicode (the Kelvin sign U+212A becomes \<^verbatim>\<open>k\<close>, for one). The functions
  that call it take it as the parameter \<open>lower\<close>, and what is proved about them holds for
  every such function.

  \<open>lower_ascii\<close> is that method on the texts made of ASCII characters only, where it
  turns the letters A to Z into a to z and keeps every other character. It serves to run
  the program on such texts and says nothing about the others.
\<close>

definition lower_char :: "char \<Rightarrow> char" where
  "lower_char c =
     (case map_of (zip ''ABCDEFGHIJKLMNOPQRSTUVWXYZ'' ''abcdefghijklmnopqrstuvwxyz'') c of
        Some l \<Rightarrow> l
      | None \<Rightarrow> c)"

definition lower_ascii :: "string \<Rightarrow> string" where
  "lower_ascii s = map lower_char s"

text \<open>\<^verbatim>\<open>kw in text\<close> on two strings: \<open>kw\<close> occurs in \<open>text\<close> as a contiguous substring.\<close>

fun starts_with :: "string \<Rightarrow> string \<Rightarrow> bool" where
  "starts_with [] s = True"
| "starts_with (k # ks) [] = False"
| "starts_with (k # ks) (c # cs) = (k = c \<and> starts_with ks cs)"

fun str_contains :: "string \<Rightarrow> string \<Rightarrow> bool" where
  "str_contains kw [] = (kw = [])"
| "str_contains kw (c # cs) = (starts_with kw (c # cs) \<or> str_contains kw cs)"

section \<open>Mood detection\<close>

definition MOOD_KEYWORDS :: "(string \<times> string list) list" where
  "MOOD_KEYWORDS =
     [(''calm'', [''calm'', ''sleepy'', ''tired'', ''cozy'', ''bedtime'', ''relaxed'']),
      (''anxious'', [''scared'', ''lost'', ''anxious'', ''afraid'', ''worried'', ''nervous'']),
      (''excited'', [''excited'', ''adventure'', ''energetic'', ''happy'', ''bouncy'']),
      (''sad'', [''sad'', ''down'', ''lonely'', ''miss'', ''cry'']),
      (''curious'', [''curious'', ''wonder'', ''ask'', ''how'', ''why'', ''what'']),
      (''playful'', [''fun'', ''silly'', ''joke'', ''play''])]"

text \<open>The order of the explicit-mention check, line 80 of \<^verbatim>\<open>main.py\<close>.\<close>

definition MOOD_ORDER :: "string list" where
  "MOOD_ORDER = [''calm'', ''anxious'', ''excited'', ''sad'', ''curious'', ''playful'']"

text \<open>
  The two nested loops of lines 74 to 78: every mood starts at 0 and gains 1 for each of
  its keywords that occurs in the lowered text. The dict \<^verbatim>\<open>scores\<close> is its item list, in
  the insertion order of \<^verbatim>\<open>MOOD_KEYWORDS\<close>.
\<close>

definition keyword_hits :: "string \<Rightarrow> string list \<Rightarrow> nat" where
  "keyword_hits lower keys = length (filter (\<lambda>kw. str_contains kw lower) keys)"

definition mood_scores :: "string \<Rightarrow> (string \<times> nat) list" where
  "mood_scores lower = map (\<lambda>(mood, keys). (mood, keyword_hits lower keys)) MOOD_KEYWORDS"

text \<open>
  \<^verbatim>\<open>max(items, key=lambda x: x[1])\<close>: the first item whose key is maximal (a later item
  replaces the best one only when its key is strictly larger); \<^verbatim>\<open>ValueError\<close> on an empty
  sequence.
\<close>

fun max_from :: "(string \<times> nat) \<Rightarrow> (string \<times> nat) list \<Rightarrow> (string \<times> nat)" where
  "max_from best [] = best"
| "max_from best (x # xs) = max_from (if snd best < snd x then x else best) xs"

definition py_max_by_snd :: "(string \<times> nat) list \<Rightarrow> py_error + (string \<times> nat)" where
  "py_max_by_snd items = (case items of [] \<Rightarrow> Inl ValueError | x # xs \<Rightarrow> Inr (max_from x xs))"

text \<open>
  \<^verbatim>\<open>detect_mood\<close>, lines 72 to 88, with \<^verbatim>\<open>str.lower\<close> as the parameter \<open>lower\<close>;
  \<open>lowered\<close> is the local variable \<^verbatim>\<open>lower\<close>.
\<close>

definition detect_mood :: "(string \<Rightarrow> string) \<Rightarrow> string \<Rightarrow> py_error + string" where
  "detect_mood lower user_text =
     (let lowered = lower user_text;
          scores = mood_scores lowered
      in case find (\<lambda>mood. str_contains mood lowered) MOOD_ORDER of
           Some mood \<Rightarrow> Inr mood
         | None \<Rightarrow>
             (case py_max_by_snd scores of
                Inl e \<Rightarrow> Inl e
              | Inr best \<Rightarrow> if snd best = 0 then Inr ''calm'' else Inr (fst best)))"

section \<open>Random choices\<close>

text \<open>
  The generator of module \<^verbatim>\<open>random\<close> is a stream \<open>rnd\<close> of raw draws: \<open>rnd i\<close> is the
  \<open>i\<close>-th one, and a draw below \<open>n\<close> is \<open>rnd i mod n\<close>. Every outcome of the library
  functions is the outcome of some stream.

  \<^verbatim>\<open>random.sample(population, k)\<close> raises \<^verbatim>\<open>ValueError\<close> when \<open>k\<close> exceeds the size of
  the population and otherwise picks \<open>k\<close> positions without replacement: each draw takes
  one element out of the pool of those that are left.
\<close>

fun sample_pool :: "(nat \<Rightarrow> nat) \<Rightarrow> nat \<Rightarrow> 'a list \<Rightarrow> nat \<Rightarrow> 'a list" where
  "sample_pool rnd i pool 0 = []"
| "sample_pool rnd i pool (Suc k) =
     (let j = rnd i mod length pool
      in pool ! j # sample_pool rnd (Suc i) (take j pool @ drop (Suc j) pool) k)"

definition random_sample :: "(nat \<Rightarrow> nat) \<Rightarrow> 'a list \<Rightarrow> nat \<Rightarrow> py_error + 'a list" where
  "random_sample rnd population k =
     (if length population < k then Inl ValueError
      else Inr (sample_pool rnd 0 population k))"

text \<open>
  \<^verbatim>\<open>random.shuffle(x)\<close>: for \<open>i\<close> from \<open>len(x) - 1\<close> down to 1, swap \<open>x[i]\<close> with
  \<open>x[j]\<close> for a draw \<open>j\<close> below \<open>i + 1\<close>. The draws start at position \<open>d\<close> of the
  stream.
\<close>

fun shuffle_down :: "(nat \<Rightarrow> nat) \<Rightarrow> nat \<Rightarrow> nat \<Rightarrow> 'a list \<Rightarrow> 'a list" where
  "shuffle_down rnd d 0 x = x"
| "shuffle_down rnd d (Suc i') x =
     (let i = Suc i';
          j = rnd d mod (i + 1)
      in shuffle_down rnd (Suc d) i' (x[i := x ! j, j := x ! i]))"

definition random_shuffle :: "(nat \<Rightarrow> nat) \<Rightarrow> nat \<Rightarrow> 'a list \<Rightarrow> 'a list" where
  "random_shuffle rnd d x = shuffle_down rnd d (length x - 1) x"

text \<open>\<^verbatim>\<open>random.choice(seq)\<close>: \<^verbatim>\<open>IndexError\<close> on an empty sequence.\<close>

definition random_choice :: "(nat \<Rightarrow> nat) \<Rightarrow> nat \<Rightarrow> 'a list \<Rightarrow> py_error + 'a" where
  "random_choice rnd d seq =
     (if seq = [] then Inl IndexError else Inr (seq ! (rnd d mod length seq)))"

section \<open>Themes and settings\<close>

definition THEMES :: "string list" where
  "THEMES =
     [''Adventure'', ''Animal Friends'', ''Problem Solving'', ''Friendship'', ''Magic/Fantasy'',
      ''Space'', ''Family'', ''Courage'', ''Kindness'', ''Honesty'', ''Justice'', ''Teamwork'',
      ''Be Yourself'', ''Love'', ''Hope'', ''Hard Work'', ''Loyalty'', ''Persistence'',
      ''Compassion'', ''Generosity'', ''Holidays'', ''Peace'', ''Equality'', ''Siblings'',
      ''Festival'', ''Summer Break'', ''Facing Fears'', ''Gratitude'', ''Self-Confidence'',
      ''Helping Others'']"

definition SETTINGS :: "string list" where
  "SETTINGS =
     [''Farm'', ''Ocean'', ''Jungle'', ''Forest'', ''Neighborhood'', ''Backyard'', ''Park'',
      ''Mountain'', ''Beach'', ''School'', ''Space'', ''Castle'', ''Under the Bed'',
      ''Treehouse'', ''Desert'', ''Arctic'', ''Magical Land'', ''Playground'', ''Circus'',
      ''Library'']"

text \<open>
  \<^verbatim>\<open>select_themes\<close> reads the global \<^verbatim>\<open>THEMES\<close>; \<open>select_themes_from\<close> is its body
  with the catalog as a parameter. The sample takes the draws 0 to 2 of the stream and
  the shuffle of the four labels the draws 3 to 5.
\<close>

definition select_themes_from :: "string list \<Rightarrow> (nat \<Rightarrow> nat) \<Rightarrow> py_error + string list" where
  "select_themes_from themes rnd =
     (let others = filter (\<lambda>t. t \<noteq> ''Problem Solving'') themes
      in case random_sample rnd others 3 of
           Inl e \<Rightarrow> Inl e
         | Inr chosen \<Rightarrow> Inr (random_shuffle rnd 3 (chosen @ [''Problem Solving''])))"

definition select_themes :: "(nat \<Rightarrow> nat) \<Rightarrow> py_error + string list" where
  "select_themes rnd = select_themes_from THEMES rnd"

definition select_setting :: "(nat \<Rightarrow> nat) \<Rightarrow> py_error + string" where
  "select_setting rnd = random_choice rnd 0 SETTINGS"

section \<open>The response parser\<close>

text \<open>
  \<^verbatim>\<open>re.search(r"\{.*\}", text, re.DOTALL)\<close>: the leftmost match starts at the first
  opening brace that has a closing brace after it, and the greedy \<^verbatim>\<open>.*\<close> runs to the
  last closing brace of the text. \<open>None\<close> when there is no match.
\<close>

definition re_search_braces :: "string \<Rightarrow> string option" where
  "re_search_braces text =
     (let from_open = dropWhile (\<lambda>c. c \<noteq> CHR ''{'') text;
          upto_close = rev (dropWhile (\<lambda>c. c \<noteq> CHR ''}'') (rev from_open))
      in if upto_close = [] then None else Some upto_close)"

definition error_object :: "string \<Rightarrow> string \<Rightarrow> json" where
  "error_object kind raw = JObj [(''error'', JStr kind), (''raw'', JStr raw)]"

text \<open>
  \<^verbatim>\<open>json.loads\<close> belongs to the standard library; the parser takes it as the parameter
  \<open>loads\<close>, whose \<open>Inl\<close> results are the exceptions it raises. Each
  \<^verbatim>\<open>try ... except Exception\<close> of lines 199 to 210 is the case distinction on the
  result of the call it guards.
\<close>

definition parse_json_safe :: "(string \<Rightarrow> py_error + json) \<Rightarrow> string \<Rightarrow> py_error + json" where
  "parse_json_safe loads text =
     (case loads text of
        Inr v \<Rightarrow> Inr v
      | Inl _ \<Rightarrow>
          (case re_search_braces text of
             Some m \<Rightarrow>
               (case loads m of
                  Inr v \<Rightarrow> Inr v
                | Inl _ \<Rightarrow> Inr (error_object ''invalid_json'' text))
           | None \<Rightarrow> Inr (error_object ''no_json'' text)))"

section \<open>Operations on dynamically typed values\<close>

text \<open>
  \<^verbatim>\<open>key in x\<close>: a key of a dict, an element of a list, a substring of a string;
  \<^verbatim>\<open>TypeError\<close> on a value that is not iterable.
\<close>

fun py_in :: "string \<Rightarrow> json \<Rightarrow> py_error + bool" where
  "py_in k (JObj items) = Inr (k \<in> set (map fst items))"
| "py_in k (JArr xs) = Inr (JStr k \<in> set xs)"
| "py_in k (JStr s) = Inr (str_contains k s)"
| "py_in k v = Inl TypeError"

text \<open>\<^verbatim>\<open>x.get(key, default)\<close>: only a dict has the method.\<close>

fun py_get :: "json \<Rightarrow> string \<Rightarrow> json \<Rightarrow> py_error + json" where
  "py_get (JObj items) k d = Inr (case map_of items k of Some v \<Rightarrow> v | None \<Rightarrow> d)"
| "py_get v k d = Inl AttributeError"

text \<open>The truth value of \<^verbatim>\<open>if x\<close>.\<close>

fun py_truthy :: "json \<Rightarrow> bool" where
  "py_truthy JNull = False"
| "py_truthy (JBool b) = b"
| "py_truthy (JNum n) = (n \<noteq> 0)"
| "py_truthy (JStr s) = (s \<noteq> [])"
| "py_truthy (JArr xs) = (xs \<noteq> [])"
| "py_truthy (JObj items) = (items \<noteq> [])"

text \<open>\<^verbatim>\<open>x.values()\<close>: only a dict has the method.\<close>

fun py_values :: "json \<Rightarrow> py_error + json list" where
  "py_values (JObj items) = Inr (map snd items)"
| "py_values v = Inl AttributeError"

text \<open>
  \<^verbatim>\<open>sum(values)\<close> adds from 0, left to right; a bool counts as 1 or 0, and adding
  anything else to a number is a \<^verbatim>\<open>TypeError\<close>.
\<close>

fun py_sum_from :: "rat \<Rightarrow> json list \<Rightarrow> py_error + rat" where
  "py_sum_from acc [] = Inr acc"
| "py_sum_from acc (JNum n # vs) = py_sum_from (acc + n) vs"
| "py_sum_from acc (JBool b # vs) = py_sum_from (acc + (if b then 1 else 0)) vs"
| "py_sum_from acc (v # vs) = Inl TypeError"

definition py_sum :: "json list \<Rightarrow> py_error + rat" where
  "py_sum vs = py_sum_from 0 vs"

text \<open>
  \<^verbatim>\<open>x[:5]\<close> and the iteration over the result: the first five elements of a list, the
  first five characters of a string; no other value of this type can be sliced.
\<close>

fun py_first5 :: "json \<Rightarrow> py_error + json list" where
  "py_first5 (JArr xs) = Inr (take 5 xs)"
| "py_first5 (JStr s) = Inr (map (\<lambda>c. JStr [c]) (take 5 s))"
| "py_first5 v = Inl TypeError"

section \<open>The text-generation client\<close>

text \<open>
  The prompt builders are string templates around their arguments (lines 102 to 195 and
  299 to 314); a prompt is kept as the builder's name with those arguments. The rewrite
  prompt holds the revision instructions that line 298 joins into one string.
\<close>

datatype prompt =
    StoryPrompt string string "string list" string
  | JudgePrompt string
  | RewritePrompt "json list" string
  | CardsPrompt string
  | SoundtrackPrompt string string

text \<open>
  What the program does not own: the credential read from the environment, the remote
  service behind \<^verbatim>\<open>openai.ChatCompletion.create\<close> (its answer to the \<open>n\<close>-th request
  sent, or the exception it raises), the library's JSON decoder, the random generator
  and the method \<^verbatim>\<open>str.lower\<close>.
\<close>

record env =
  api_key :: "string option"
  chat_completion :: "nat \<Rightarrow> prompt \<Rightarrow> py_error + string"
  json_decoder :: "string \<Rightarrow> py_error + json"
  random_stream :: "nat \<Rightarrow> nat"
  str_lower :: "string \<Rightarrow> string"

text \<open>
  The trace of a run: the prompts sent to the service, in order, and the values the
  loop variable \<^verbatim>\<open>attempt\<close> has taken.
\<close>

record trace =
  calls :: "prompt list"
  rounds :: "nat list"

text \<open>
  \<^verbatim>\<open>call_model\<close>: \<^verbatim>\<open>RuntimeError\<close> before anything is sent when the key is missing or
  empty; otherwise one request, whose failure is raised to the caller as it is.
\<close>

definition call_model :: "env \<Rightarrow> prompt \<Rightarrow> trace \<Rightarrow> (py_error + string) \<times> trace" where
  "call_model E p tr =
     (if api_key E = None \<or> api_key E = Some [] then (Inl RuntimeError, tr)
      else (chat_completion E (length (calls tr)) p, tr\<lparr>calls := calls tr @ [p]\<rparr>))"

section \<open>Judging and acceptance\<close>

text \<open>The fallback judgement of lines 273 to 286.\<close>

definition FALLBACK_SCORES :: "(string \<times> json) list" where
  "FALLBACK_SCORES =
     [(''AgeAppropriateness'', JNum 8),
      (''ToneCalmness'', JNum 7),
      (''ImageryQuality'', JNum 7),
      (''SentenceSimplicity'', JNum 7),
      (''EmotionalClarity'', JNum 7),
      (''ProblemSolvingPresence'', JNum 8),
      (''StructureCompleteness'', JNum 7),
      (''SleepinessFactor'', JNum 7)]"

definition FALLBACK_REVISIONS :: "json list" where
  "FALLBACK_REVISIONS =
     [JStr ''Ensure the problem solving steps are explicit.'',
      JStr ''Make ending more calming.'']"

definition FALLBACK_JUDGE :: json where
  "FALLBACK_JUDGE =
     JObj [(''scores'', JObj FALLBACK_SCORES),
           (''critique'', JStr ''Judge failed to return JSON; using fallback scores.''),
           (''revisions'', JArr FALLBACK_REVISIONS)]"

text \<open>
  Lines 269 to 286: parse the judge's answer and replace it by the fallback when
  \<^verbatim>\<open>"scores" not in judge_json\<close>.
\<close>

definition judge_verdict :: "(string \<Rightarrow> py_error + json) \<Rightarrow> string \<Rightarrow> py_error + json" where
  "judge_verdict loads judge_raw =
     (case parse_json_safe loads judge_raw of
        Inl e \<Rightarrow> Inl e
      | Inr parsed \<Rightarrow>
          (case py_in ''scores'' parsed of
             Inl e \<Rightarrow> Inl e
           | Inr has_scores \<Rightarrow> Inr (if \<not> has_scores then FALLBACK_JUDGE else parsed)))"

text \<open>
  Lines 289 and 290:
  \<^verbatim>\<open>avg_score = sum(scores.values()) / len(scores) if scores else 0\<close>.
\<close>

definition avg_score :: "json \<Rightarrow> py_error + rat" where
  "avg_score judge_json =
     (case py_get judge_json ''scores'' (JObj []) of
        Inl e \<Rightarrow> Inl e
      | Inr scores \<Rightarrow>
          if py_truthy scores then
            (case py_values scores of
               Inl e \<Rightarrow> Inl e
             | Inr vs \<Rightarrow>
                 (case py_sum vs of
                    Inl e \<Rightarrow> Inl e
                  | Inr sm \<Rightarrow> Inr (sm / of_nat (length vs))))
          else Inr 0)"

text \<open>Line 292: \<^verbatim>\<open>avg_score >= 7.5 or attempt == 2\<close>.\<close>

definition accepted :: "json \<Rightarrow> nat \<Rightarrow> py_error + bool" where
  "accepted judge_json attempt =
     (case avg_score judge_json of
        Inl e \<Rightarrow> Inl e
      | Inr avg \<Rightarrow> Inr (avg \<ge> 15 / 2 \<or> attempt = 2))"

text \<open>Line 296: \<^verbatim>\<open>judge_json.get("revisions", [])[:5]\<close>.\<close>

definition revisions_of :: "json \<Rightarrow> py_error + json list" where
  "revisions_of judge_json =
     (case py_get judge_json ''revisions'' (JArr []) of
        Inl e \<Rightarrow> Inl e
      | Inr r \<Rightarrow> py_first5 r)"

section \<open>The refinement loop\<close>

text \<open>
  \<^verbatim>\<open>for attempt in range(3)\<close>, lines 266 to 316, from the value \<open>attempt\<close> of the loop
  variable on. \<open>prev\<close> is the binding of \<^verbatim>\<open>judge_json\<close> left by the round before
  (\<open>None\<close> while the name is unbound). A \<^verbatim>\<open>break\<close> and the exhausted range both leave
  the loop with the current story and judgement; every exception leaves the function.
\<close>

function refine_loop ::
  "env \<Rightarrow> nat \<Rightarrow> string \<Rightarrow> json option \<Rightarrow> trace \<Rightarrow> (py_error + (string \<times> json)) \<times> trace" where
  "refine_loop E attempt story prev tr =
     (if 3 \<le> attempt then
        (case prev of
           None \<Rightarrow> (Inl UnboundLocalError, tr)
         | Some judge_json \<Rightarrow> (Inr (story, judge_json), tr))
      else
        (case call_model E (JudgePrompt story) (tr\<lparr>rounds := rounds tr @ [attempt]\<rparr>) of
           (Inl e, tr1) \<Rightarrow> (Inl e, tr1)
         | (Inr judge_raw, tr1) \<Rightarrow>
             (case judge_verdict (json_decoder E) judge_raw of
                Inl e \<Rightarrow> (Inl e, tr1)
              | Inr judge_json \<Rightarrow>
                  (case accepted judge_json attempt of
                     Inl e \<Rightarrow> (Inl e, tr1)
                   | Inr True \<Rightarrow> (Inr (story, judge_json), tr1)
                   | Inr False \<Rightarrow>
                       (case revisions_of judge_json of
                          Inl e \<Rightarrow> (Inl e, tr1)
                        | Inr revisions \<Rightarrow>
                            (case call_model E (RewritePrompt revisions story) tr1 of
                               (Inl e, tr2) \<Rightarrow> (Inl e, tr2)
                             | (Inr rewritten, tr2) \<Rightarrow>
                                 refine_loop E (attempt + 1) rewritten (Some judge_json) tr2))))))"
  by pat_completeness auto
termination
  by (relation "measure (\<lambda>(E, attempt, story, prev, tr). 3 - attempt)") auto

section \<open>The whole request\<close>

text \<open>
  Lines 321 to 325 and 330 to 333: \<^verbatim>\<open>json.loads\<close>, and \<^verbatim>\<open>parse_json_safe\<close> on the
  same text when it raises.
\<close>

definition loads_or_safe :: "(string \<Rightarrow> py_error + json) \<Rightarrow> string \<Rightarrow> py_error + json" where
  "loads_or_safe loads raw =
     (case loads raw of
        Inr v \<Rightarrow> Inr v
      | Inl _ \<Rightarrow> parse_json_safe loads raw)"

record story_result =
  res_story :: string
  res_judge_json :: json
  res_cards_json :: json
  res_soundtrack_json :: json
  res_mood :: string
  res_themes :: "string list"
  res_setting :: string

text \<open>
  \<^verbatim>\<open>generate_and_refine_story\<close>. The theme selection takes the first six draws of the
  random stream and the setting the next one.
\<close>

definition generate_and_refine_story :: "env \<Rightarrow> string \<Rightarrow> (py_error + story_result) \<times> trace" where
  "generate_and_refine_story E user_input =
     (let tr0 = \<lparr>calls = [], rounds = []\<rparr> in
      case detect_mood (str_lower E) user_input of
        Inl e \<Rightarrow> (Inl e, tr0)
      | Inr mood \<Rightarrow>
      (case select_themes (random_stream E) of
        Inl e \<Rightarrow> (Inl e, tr0)
      | Inr themes \<Rightarrow>
      (case select_setting (\<lambda>i. random_stream E (i + 6)) of
        Inl e \<Rightarrow> (Inl e, tr0)
      | Inr setting \<Rightarrow>
      (case call_model E (StoryPrompt user_input mood themes setting) tr0 of
        (Inl e, tr1) \<Rightarrow> (Inl e, tr1)
      | (Inr story, tr1) \<Rightarrow>
      (case refine_loop E 0 story None tr1 of
        (Inl e, tr2) \<Rightarrow> (Inl e, tr2)
      | (Inr (final, judge_json), tr2) \<Rightarrow>
      (case call_model E (CardsPrompt final) tr2 of
        (Inl e, tr3) \<Rightarrow> (Inl e, tr3)
      | (Inr cards_raw, tr3) \<Rightarrow>
      (case loads_or_safe (json_decoder E) cards_raw of
        Inl e \<Rightarrow> (Inl e, tr3)
      | Inr cards_json \<Rightarrow>
      (case call_model E (SoundtrackPrompt mood setting) tr3 of
        (Inl e, tr4) \<Rightarrow> (Inl e, tr4)
      | (Inr sound_raw, tr4) \<Rightarrow>
      (case loads_or_safe (json_decoder E) sound_raw of
        Inl e \<Rightarrow> (Inl e, tr4)
      | Inr soundtrack_json \<Rightarrow>
          (Inr \<lparr>res_story = final, res_judge_json = judge_json, res_cards_json = cards_json,
                res_soundtrack_json = soundtrack_json, res_mood = mood, res_themes = themes,
                res_setting = setting\<rparr>, tr4))))))))))"

section \<open>A reference JSON decoder\<close>

text \<open>
  A decoder to run the program on concrete texts. It follows the scanner of the
  library's \<^verbatim>\<open>json.loads\<close> on JSON whose strings use no \<^verbatim>\<open>\u\<close> escape and whose
  numbers are written without the literals \<^verbatim>\<open>NaN\<close> and \<^verbatim>\<open>Infinity\<close>: white space, the
  three literals, numbers, strings, arrays and objects (a repeated key keeps its first
  position and its last value). A number with a fraction or an exponent is taken at its
  exact decimal value. The statements about all inputs below do not depend on it: they
  hold for every decoder.
\<close>

definition skip_ws :: "string \<Rightarrow> string" where
  "skip_ws s = dropWhile (\<lambda>c. c \<in> set [CHR '' '', CHR 0x09, CHR 0x0A, CHR 0x0D]) s"

definition is_digit :: "char \<Rightarrow> bool" where
  "is_digit c = (c \<in> set ''0123456789'')"

definition digit_value :: "char \<Rightarrow> nat" where
  "digit_value c =
     (case map_of (zip ''0123456789'' [0, 1, 2, 3, 4, 5, 6, 7, 8, 9]) c of
        Some d \<Rightarrow> d
      | None \<Rightarrow> 0)"

definition digits_value :: "string \<Rightarrow> nat" where
  "digits_value ds = foldl (\<lambda>acc c. 10 * acc + digit_value c) 0 ds"

text \<open>
  The number pattern \<^verbatim>\<open>(-?(?:0|[1-9]\d*))(\.\d+)?([eE][-+]?\d+)?\<close>, matched at the head
  of the text.
\<close>

definition scan_sign :: "string \<Rightarrow> bool \<times> string" where
  "scan_sign s =
     (case s of
        [] \<Rightarrow> (False, s)
      | c # r \<Rightarrow> if c = CHR ''-'' then (True, r) else (False, s))"

definition scan_int_part :: "string \<Rightarrow> (string \<times> string) option" where
  "scan_int_part s =
     (case s of
        [] \<Rightarrow> None
      | c # r \<Rightarrow>
          if c = CHR ''0'' then Some ([c], r)
          else if is_digit c then Some (takeWhile is_digit s, dropWhile is_digit s)
          else None)"

definition scan_frac_part :: "string \<Rightarrow> string \<times> string" where
  "scan_frac_part s =
     (case s of
        [] \<Rightarrow> ([], s)
      | c # r \<Rightarrow>
          if c = CHR ''.'' \<and> takeWhile is_digit r \<noteq> []
          then (takeWhile is_digit r, dropWhile is_digit r)
          else ([], s))"

definition scan_exp_part :: "string \<Rightarrow> int \<times> string" where
  "scan_exp_part s =
     (case s of
        [] \<Rightarrow> (0, s)
      | c # r \<Rightarrow>
          if c = CHR ''e'' \<or> c = CHR ''E'' then
            (let (neg, r1) =
                   (case r of
                      [] \<Rightarrow> (False, r)
                    | g # r' \<Rightarrow>
                        if g = CHR ''-'' then (True, r')
                        else if g = CHR ''+'' then (False, r')
                        else (False, r))
             in if takeWhile is_digit r1 = [] then (0, s)
                else ((if neg then - int (digits_value (takeWhile is_digit r1))
                       else int (digits_value (takeWhile is_digit r1))),
                      dropWhile is_digit r1))
          else (0, s))"

definition scan_number :: "string \<Rightarrow> (rat \<times> string) option" where
  "scan_number s =
     (let (neg, s1) = scan_sign s
      in case scan_int_part s1 of
           None \<Rightarrow> None
         | Some (ip, s2) \<Rightarrow>
             (let (fp, s3) = scan_frac_part s2;
                  (ex, s4) = scan_exp_part s3;
                  mant = of_nat (digits_value ip) + of_nat (digits_value fp) / 10 ^ length fp;
                  mag = (if 0 \<le> ex then mant * 10 ^ nat ex else mant / 10 ^ nat (- ex))
              in Some ((if neg then - mag else mag), s4)))"

text \<open>A string after its opening quote, up to the closing one.\<close>

definition unescape :: "char \<Rightarrow> char option" where
  "unescape c =
     map_of [(CHR 0x22, CHR 0x22), (CHR 0x5C, CHR 0x5C), (CHR ''/'', CHR ''/''),
             (CHR ''b'', CHR 0x08), (CHR ''f'', CHR 0x0C), (CHR ''n'', CHR 0x0A),
             (CHR ''r'', CHR 0x0D), (CHR ''t'', CHR 0x09)] c"

fun scan_string :: "string \<Rightarrow> (string \<times> string) option" where
  "scan_string [] = None"
| "scan_string [c] = (if c = CHR 0x22 then Some ([], []) else None)"
| "scan_string (c # e # r) =
     (if c = CHR 0x22 then Some ([], e # r)
      else if c = CHR 0x5C then
        (case unescape e of
           None \<Rightarrow> None
         | Some ch \<Rightarrow>
             (case scan_string r of
                None \<Rightarrow> None
              | Some (str, rest) \<Rightarrow> Some (ch # str, rest)))
      else if (of_char c :: nat) < 32 then None
      else
        (case scan_string (e # r) of
           None \<Rightarrow> None
         | Some (str, rest) \<Rightarrow> Some (c # str, rest)))"

text \<open>\<^verbatim>\<open>dict[k] = v\<close> on the item list.\<close>

fun dict_set :: "(string \<times> json) list \<Rightarrow> string \<Rightarrow> json \<Rightarrow> (string \<times> json) list" where
  "dict_set [] k v = [(k, v)]"
| "dict_set ((k', v') # items) k v =
     (if k' = k then (k', v) # items else (k', v') # dict_set items k v)"

text \<open>
  The mutually recursive scanners. The first argument bounds the number of nested
  calls; the text is its own bound, since every call reads at least one character.
\<close>

fun scan_value :: "nat \<Rightarrow> string \<Rightarrow> (json \<times> string) option"
  and scan_array :: "nat \<Rightarrow> json list \<Rightarrow> string \<Rightarrow> (json \<times> string) option"
  and scan_object :: "nat \<Rightarrow> (string \<times> json) list \<Rightarrow> string \<Rightarrow> (json \<times> string) option"
  where
  "scan_value 0 s = None"
| "scan_value (Suc n) s =
     (case s of
        [] \<Rightarrow> None
      | c # r \<Rightarrow>
          if c = CHR 0x22 then
            (case scan_string r of None \<Rightarrow> None | Some (str, rest) \<Rightarrow> Some (JStr str, rest))
          else if c = CHR ''{'' then
            (case skip_ws r of
               [] \<Rightarrow> None
             | d # r' \<Rightarrow> if d = CHR ''}'' then Some (JObj [], r') else scan_object n [] (d # r'))
          else if c = CHR ''['' then
            (case skip_ws r of
               [] \<Rightarrow> None
             | d # r' \<Rightarrow> if d = CHR '']'' then Some (JArr [], r') else scan_array n [] (d # r'))
          else if starts_with ''null'' s then Some (JNull, drop 4 s)
          else if starts_with ''true'' s then Some (JBool True, drop 4 s)
          else if starts_with ''false'' s then Some (JBool False, drop 5 s)
          else
            (case scan_number s of None \<Rightarrow> None | Some (x, rest) \<Rightarrow> Some (JNum x, rest)))"
| "scan_array 0 acc s = None"
| "scan_array (Suc n) acc s =
     (case scan_value n s of
        None \<Rightarrow> None
      | Some (v, r) \<Rightarrow>
          (case skip_ws r of
             [] \<Rightarrow> None
           | c # r' \<Rightarrow>
               if c = CHR '']'' then Some (JArr (acc @ [v]), r')
               else if c = CHR '','' then scan_array n (acc @ [v]) (skip_ws r')
               else None))"
| "scan_object 0 acc s = None"
| "scan_object (Suc n) acc s =
     (case s of
        [] \<Rightarrow> None
      | q # r \<Rightarrow>
          if q \<noteq> CHR 0x22 then None
          else
            (case scan_string r of
               None \<Rightarrow> None
             | Some (k, r1) \<Rightarrow>
                 (case skip_ws r1 of
                    [] \<Rightarrow> None
                  | c # r2 \<Rightarrow>
                      if c \<noteq> CHR '':'' then None
                      else
                        (case scan_value n (skip_ws r2) of
                           None \<Rightarrow> None
                         | Some (v, r3) \<Rightarrow>
                             (case skip_ws r3 of
                                [] \<Rightarrow> None
                              | d # r4 \<Rightarrow>
                                  if d = CHR ''}'' then Some (JObj (dict_set acc k v), r4)
                                  else if d = CHR '','' then
                                    scan_object n (dict_set acc k v) (skip_ws r4)
                                  else None)))))"

definition json_loads :: "string \<Rightarrow> py_error + json" where
  "json_loads text =
     (case scan_value (Suc (length text)) (skip_ws text) of
        None \<Rightarrow> Inl JSONDecodeError
      | Some (v, rest) \<Rightarrow> if skip_ws rest = [] then Inr v else Inl JSONDecodeError)"

section \<open>The acceptance rule in the words of the specification\<close>



section \<open>Substrings\<close>

text \<open>\<open>str_contains\<close> is the substring relation.\<close>

lemma starts_with_iff: "starts_with k s \<longleftrightarrow> (\<exists>post. s = k @ post)"
  by (induction k s rule: starts_with.induct) auto

lemma str_contains_iff: "str_contains k s \<longleftrightarrow> (\<exists>pre post. s = pre @ k @ post)"
proof (induction s)
  case Nil
  then show ?case by auto
next
  case (Cons c cs)
  show ?case
  proof
    assume "str_contains k (c # cs)"
    then consider "starts_with k (c # cs)" | "str_contains k cs" by auto
    then show "\<exists>pre post. c # cs = pre @ k @ post"
    proof cases
      case 1
      then obtain post where "c # cs = k @ post" by (auto simp: starts_with_iff)
      then have "c # cs = [] @ k @ post" by simp
      then show ?thesis by blast
    next
      case 2
      then obtain pre post where "cs = pre @ k @ post" using Cons.IH by blast
      then have "c # cs = (c # pre) @ k @ post" by simp
      then show ?thesis by blast
    qed
  next
    assume "\<exists>pre post. c # cs = pre @ k @ post"
    then obtain pre post where e: "c # cs = pre @ k @ post" by blast
    show "str_contains k (c # cs)"
    proof (cases pre)
      case Nil
      with e have "starts_with k (c # cs)" by (auto simp: starts_with_iff)
      then show ?thesis by simp
    next
      case (Cons p ps)
      with e have "cs = ps @ k @ post" by simp
      then have "str_contains k cs" using Cons.IH by blast
      then show ?thesis by simp
    qed
  qed
qed

section \<open>Mood detection: the explicit mention and the default\<close>

text \<open>In this section \<open>lower\<close> is any function on texts.\<close>

lemma detect_mood_only_label:
  assumes "m \<in> set MOOD_ORDER" and "str_contains m (lower t)"
    and "\<forall>m'\<in>set MOOD_ORDER. m' \<noteq> m \<longrightarrow> \<not> str_contains m' (lower t)"
  shows "detect_mood lower t = Inr m"
  using assms by (auto simp: detect_mood_def MOOD_ORDER_def Let_def)

lemma detect_mood_first_label:
  assumes "i < length MOOD_ORDER" and "str_contains (MOOD_ORDER ! i) (lower t)"
    and "\<forall>j<i. \<not> str_contains (MOOD_ORDER ! j) (lower t)"
  shows "detect_mood lower t = Inr (MOOD_ORDER ! i)"
proof -
  have "find (\<lambda>mood. str_contains mood (lower t)) MOOD_ORDER = Some (MOOD_ORDER ! i)"
    unfolding find_Some_iff using assms by blast
  then show ?thesis by (simp add: detect_mood_def Let_def)
qed

text \<open>
  C7. When the name of exactly one mood occurs in the lowered text, \<open>detect_mood\<close>
  returns that mood, whatever the keyword scores are; in general it returns the first
  mood of the order calm, anxious, excited, sad, curious, playful whose name occurs.
  This holds for every function \<open>lower\<close>, so for \<^verbatim>\<open>str.lower\<close>.
\<close>

theorem detect_mood_direct_mention:
  "(m \<in> set MOOD_ORDER \<and> str_contains m (lower t) \<and>
      (\<forall>m'\<in>set MOOD_ORDER. m' \<noteq> m \<longrightarrow> \<not> str_contains m' (lower t))
      \<longrightarrow> detect_mood lower t = Inr m) \<and>
   (i < length MOOD_ORDER \<and> str_contains (MOOD_ORDER ! i) (lower t) \<and>
      (\<forall>j<i. \<not> str_contains (MOOD_ORDER ! j) (lower t))
      \<longrightarrow> detect_mood lower t = Inr (MOOD_ORDER ! i)) \<and>
   MOOD_ORDER = [''calm'', ''anxious'', ''excited'', ''sad'', ''curious'', ''playful'']"
  using detect_mood_only_label [of m lower t] detect_mood_first_label [of i lower t]
  by (simp add: MOOD_ORDER_def)

text \<open>
  The text names only the mood sad, while two keywords of playful (silly, joke) and one
  of sad occur in it.
\<close>

theorem detect_mood_direct_mention_witness:
  "str_contains ''sad'' (lower_ascii ''A Sad clown tells a silly joke'') \<and>
   keyword_hits (lower_ascii ''A Sad clown tells a silly joke'') [''fun'', ''silly'', ''joke'', ''play''] = 2 \<and>
   detect_mood lower_ascii ''A Sad clown tells a silly joke'' = Inr ''sad''"
  using detect_mood_direct_mention [of "''sad''" lower_ascii "''A Sad clown tells a silly joke''" 3]
  by (simp add: MOOD_ORDER_def lower_ascii_def lower_char_def keyword_hits_def)

text \<open>
  C8. \<open>detect_mood\<close> raises nothing and returns calm on every text whose lowered form
  contains no mood name and no mood keyword, and on the empty text, whose lowered form is
  the empty text. This holds for every function \<open>lower\<close>, so for \<^verbatim>\<open>str.lower\<close>: the
  text is judged on what that method makes of it (a text with the letters A, S and the
  Kelvin sign is lowered to \<^verbatim>\<open>ask\<close>, which is a keyword).
\<close>

theorem detect_mood_default_calm:
  "(lower [] = [] \<longrightarrow> detect_mood lower [] = Inr ''calm'') \<and>
   ((\<forall>(mood, keys)\<in>set MOOD_KEYWORDS.
        \<not> str_contains mood (lower t) \<and> (\<forall>kw\<in>set keys. \<not> str_contains kw (lower t)))
      \<longrightarrow> detect_mood lower t = Inr ''calm'')"
  by (simp add: detect_mood_def MOOD_ORDER_def MOOD_KEYWORDS_def mood_scores_def
      keyword_hits_def py_max_by_snd_def Let_def)

text \<open>The empty text and the example request of the program, both ASCII texts.\<close>

theorem detect_mood_default_calm_witness:
  "detect_mood lower_ascii [] = Inr ''calm'' \<and>
   detect_mood lower_ascii
     ''A story about a girl named Alice and her best friend Bob, who happens to be a cat.''
     = Inr ''calm''"
  using detect_mood_default_calm [of lower_ascii "[]"]
    detect_mood_default_calm [of lower_ascii
      "''A story about a girl named Alice and her best friend Bob, who happens to be a cat.''"]
  by (simp add: MOOD_KEYWORDS_def lower_ascii_def lower_char_def)

section \<open>Theme selection\<close>

lemma sample_pool_props:
  "k \<le> length pool \<Longrightarrow>
     length (sample_pool rnd i pool k) = k \<and> mset (sample_pool rnd i pool k) \<subseteq># mset pool"
proof (induction k arbitrary: i pool)
  case 0
  then show ?case by simp
next
  case (Suc k)
  define j where "j = rnd i mod length pool"
  define rest where "rest = take j pool @ drop (Suc j) pool"
  from Suc.prems have ne: "0 < length pool" by (cases pool) auto
  then have j: "j < length pool" by (simp add: j_def)
  then have split: "pool = take j pool @ pool ! j # drop (Suc j) pool"
    by (rule id_take_nth_drop)
  have "mset pool = mset (take j pool @ pool ! j # drop (Suc j) pool)"
    using split by simp
  then have ms: "mset pool = add_mset (pool ! j) (mset rest)"
    by (simp add: rest_def)
  have "length rest = length pool - 1"
    using j by (simp add: rest_def)
  with Suc.prems have "k \<le> length rest" by simp
  from Suc.IH [OF this, of "Suc i"]
  have ih: "length (sample_pool rnd (Suc i) rest k) = k"
    "mset (sample_pool rnd (Suc i) rest k) \<subseteq># mset rest" by simp_all
  have "sample_pool rnd i pool (Suc k) = pool ! j # sample_pool rnd (Suc i) rest k"
    by (simp add: j_def rest_def Let_def)
  with ih ms show ?case by simp
qed

lemma distinct_of_mset_subset:
  assumes "mset ys \<subseteq># mset xs" "distinct xs"
  shows "distinct ys"
proof -
  have "count (mset ys) a \<le> 1" for a
  proof -
    have "count (mset ys) a \<le> count (mset xs) a"
      using assms(1) by (rule mset_subset_eq_count)
    also have "\<dots> \<le> 1"
      using assms(2) by (simp add: distinct_count_atmost_1)
    finally show ?thesis .
  qed
  then show ?thesis
    unfolding distinct_count_atmost_1
    by (metis count_mset_0_iff le_antisym less_one linorder_not_le not_in_iff)
qed

lemma shuffle_down_mset:
  "i < length x \<Longrightarrow> mset (shuffle_down rnd d i x) = mset x"
proof (induction i arbitrary: d x)
  case 0
  then show ?case by simp
next
  case (Suc i)
  define j where "j = rnd d mod (Suc i + 1)"
  have "j < Suc (Suc i)" by (simp add: j_def)
  with Suc.prems have j: "j < length x" by linarith
  define y where "y = x[Suc i := x ! j, j := x ! Suc i]"
  have my: "mset y = mset x"
    unfolding y_def using Suc.prems j by (simp add: mset_swap)
  have "i < length y" using Suc.prems by (simp add: y_def)
  from Suc.IH [OF this, of "Suc d"] have "mset (shuffle_down rnd (Suc d) i y) = mset y" .
  moreover have "shuffle_down rnd d (Suc i) x = shuffle_down rnd (Suc d) i y"
    by (simp add: j_def y_def Let_def)
  ultimately show ?case using my by simp
qed

lemma random_shuffle_mset: "mset (random_shuffle rnd d x) = mset x"
proof (cases x)
  case Nil
  then show ?thesis by (simp add: random_shuffle_def)
next
  case (Cons a as)
  then have "length x - 1 < length x" by simp
  then show ?thesis unfolding random_shuffle_def by (rule shuffle_down_mset)
qed

lemma select_themes_from_enough:
  assumes "3 \<le> length (filter (\<lambda>t. t \<noteq> ''Problem Solving'') themes)"
  shows "\<exists>ts chosen. select_themes_from themes rnd = Inr ts \<and> length chosen = 3
           \<and> mset chosen \<subseteq># mset (filter (\<lambda>t. t \<noteq> ''Problem Solving'') themes)
           \<and> mset ts = add_mset ''Problem Solving'' (mset chosen)
           \<and> length ts = 4 \<and> ''Problem Solving'' \<in> set ts
           \<and> (distinct themes \<longrightarrow> distinct ts)"
proof -
  define others where "others = filter (\<lambda>t. t \<noteq> ''Problem Solving'') themes"
  define chosen where "chosen = sample_pool rnd 0 others 3"
  define ts where "ts = random_shuffle rnd 3 (chosen @ [''Problem Solving''])"
  have len: "3 \<le> length others" using assms by (simp add: others_def)
  have ch: "length chosen = 3" "mset chosen \<subseteq># mset others"
    using sample_pool_props [OF len, of rnd 0] by (simp_all add: chosen_def)
  have run: "select_themes_from themes rnd = Inr ts"
    using len by (simp add: select_themes_from_def random_sample_def others_def chosen_def ts_def Let_def)
  have ms: "mset ts = add_mset ''Problem Solving'' (mset chosen)"
    by (simp add: ts_def random_shuffle_mset)
  have l4: "length ts = 4"
    using ch(1) arg_cong [OF ms, of size] by simp
  have mem: "''Problem Solving'' \<in> set ts"
    using arg_cong [OF ms, of set_mset] by simp
  have dist: "distinct ts" if "distinct themes"
  proof -
    have "distinct others" using that by (simp add: others_def)
    with ch(2) have dc: "distinct chosen" by (rule distinct_of_mset_subset)
    have "set chosen \<subseteq> set others"
      using ch(2) by (metis set_mset_mono set_mset_mset)
    then have "''Problem Solving'' \<notin> set chosen" by (auto simp: others_def)
    with dc have "distinct (chosen @ [''Problem Solving''])" by simp
    moreover have "mset ts = mset (chosen @ [''Problem Solving''])" using ms by simp
    ultimately show ?thesis by (metis mset_eq_imp_distinct_iff)
  qed
  show ?thesis using run ch ms l4 mem dist unfolding others_def by blast
qed

lemma select_themes_from_short:
  assumes "length (filter (\<lambda>t. t \<noteq> ''Problem Solving'') themes) < 3"
  shows "select_themes_from themes rnd = Inl ValueError"
  using assms by (simp add: select_themes_from_def random_sample_def Let_def)

lemma sample_pool_reach:
  "mset ys \<subseteq># mset pool \<Longrightarrow>
     \<exists>js. length js = length ys \<and>
       (\<forall>rnd. (\<forall>n<length ys. rnd (i + n) = js ! n)
          \<longrightarrow> sample_pool rnd i pool (length ys) = ys)"
proof (induction ys arbitrary: pool i)
  case Nil
  then show ?case by simp
next
  case (Cons y ys)
  from Cons.prems have "y \<in># mset pool" by (simp add: insert_subset_eq_iff)
  then have "y \<in> set pool" by simp
  then obtain j where j: "j < length pool" "pool ! j = y" by (auto simp: in_set_conv_nth)
  define rest where "rest = take j pool @ drop (Suc j) pool"
  have "pool = take j pool @ pool ! j # drop (Suc j) pool"
    using j(1) by (rule id_take_nth_drop)
  then have "mset pool = mset (take j pool @ y # drop (Suc j) pool)" using j(2) by simp
  then have mp: "mset pool = add_mset y (mset rest)" by (simp add: rest_def)
  with Cons.prems have "mset ys \<subseteq># mset rest" by simp
  from Cons.IH [OF this, of "Suc i"] obtain js where js: "length js = length ys"
    "\<And>rnd. (\<forall>n<length ys. rnd (Suc i + n) = js ! n)
        \<Longrightarrow> sample_pool rnd (Suc i) rest (length ys) = ys" by blast
  have "sample_pool rnd i pool (length (y # ys)) = y # ys"
    if r: "\<forall>n<length (y # ys). rnd (i + n) = (j # js) ! n" for rnd
  proof -
    from r have "rnd (i + 0) = (j # js) ! 0" by blast
    then have r0: "rnd i = j" by simp
    have "rnd (Suc i + n) = js ! n" if "n < length ys" for n
    proof -
      from that r have "rnd (i + Suc n) = (j # js) ! Suc n" by auto
      then show ?thesis by simp
    qed
    then have "sample_pool rnd (Suc i) rest (length ys) = ys" using js(2) by blast
    then show ?thesis using r0 j by (simp add: Let_def rest_def)
  qed
  then have "length (j # js) = length (y # ys) \<and>
       (\<forall>rnd. (\<forall>n<length (y # ys). rnd (i + n) = (j # js) ! n)
          \<longrightarrow> sample_pool rnd i pool (length (y # ys)) = y # ys)"
    using js(1) by simp
  then show ?case by blast
qed

lemma shuffle_down_reach:
  "i < length x \<Longrightarrow> mset y = mset x \<Longrightarrow> drop (Suc i) y = drop (Suc i) x \<Longrightarrow>
     \<exists>js. length js = i \<and>
       (\<forall>rnd. (\<forall>n<i. rnd (d + n) = js ! n) \<longrightarrow> shuffle_down rnd d i x = y)"
proof (induction i arbitrary: x d)
  case 0
  have len: "length y = length x" using 0(2) by (rule mset_eq_length)
  obtain x0 xs where x: "x = x0 # xs" using 0(1) by (cases x) auto
  obtain y0 ys where y: "y = y0 # ys" using len x by (cases y) auto
  from 0(3) x y have e: "ys = xs" by simp
  with 0(2) x y have "y0 = x0" by simp
  then show ?case using x y e by simp
next
  case (Suc i)
  have len: "length y = length x" using Suc.prems(2) by (rule mset_eq_length)
  define n where "n = Suc (Suc i)"
  have dn: "drop n y = drop n x" using Suc.prems(3) by (simp add: n_def)
  have "mset (take n y) + mset (drop n y) = mset (take n x) + mset (drop n x)"
    using Suc.prems(2) by (simp flip: mset_append)
  then have tk: "mset (take n y) = mset (take n x)" by (simp add: dn)
  have "y ! Suc i \<in> set (take n y)"
    using len Suc.prems(1) by (auto simp: in_set_conv_nth n_def intro!: exI [of _ "Suc i"])
  then have "y ! Suc i \<in> set (take n x)" using tk by (metis set_mset_mset)
  then obtain j where j: "j < n" "j < length x" "x ! j = y ! Suc i"
    by (auto simp: in_set_conv_nth)
  define x' where "x' = x[Suc i := x ! j, j := x ! Suc i]"
  have mx: "mset x' = mset x"
    unfolding x'_def using Suc.prems(1) j(2) by (simp add: mset_swap)
  have lx: "length x' = length x" by (simp add: x'_def)
  have at: "x' ! Suc i = y ! Suc i"
    using j Suc.prems(1) by (cases "j = Suc i") (simp_all add: x'_def)
  have dr: "drop n x' = drop n x"
    using j(1) by (simp add: x'_def n_def)
  have "drop (Suc i) x' = x' ! Suc i # drop n x'"
    using Suc.prems(1) lx by (simp add: n_def Cons_nth_drop_Suc)
  also have "\<dots> = y ! Suc i # drop n y" using at dr dn by simp
  also have "\<dots> = drop (Suc i) y"
    using Suc.prems(1) len by (simp add: n_def Cons_nth_drop_Suc)
  finally have d': "drop (Suc i) y = drop (Suc i) x'" by simp
  have i': "i < length x'" using Suc.prems(1) lx by simp
  have my: "mset y = mset x'" using mx Suc.prems(2) by simp
  from Suc.IH [OF i' my d', of "Suc d"] obtain js where js: "length js = i"
    "\<And>rnd. (\<forall>n<i. rnd (Suc d + n) = js ! n) \<Longrightarrow> shuffle_down rnd (Suc d) i x' = y"
    by blast
  have "shuffle_down rnd d (Suc i) x = y"
    if r: "\<forall>k<Suc i. rnd (d + k) = (j # js) ! k" for rnd
  proof -
    from r have "rnd (d + 0) = (j # js) ! 0" by blast
    then have r0: "rnd d = j" by simp
    have "rnd (Suc d + k) = js ! k" if "k < i" for k
    proof -
      from that r have "rnd (d + Suc k) = (j # js) ! Suc k" by auto
      then show ?thesis by simp
    qed
    then have "shuffle_down rnd (Suc d) i x' = y" using js(2) by blast
    moreover have "j mod (Suc i + 1) = j" using j(1) by (simp add: n_def)
    ultimately show ?thesis using r0 by (simp add: Let_def x'_def)
  qed
  then have "length (j # js) = Suc i \<and>
       (\<forall>rnd. (\<forall>k<Suc i. rnd (d + k) = (j # js) ! k) \<longrightarrow> shuffle_down rnd d (Suc i) x = y)"
    using js(1) by simp
  then show ?case by blast
qed

lemma select_themes_from_reach:
  assumes "length chosen = 3"
    and "mset chosen \<subseteq># mset (filter (\<lambda>t. t \<noteq> ''Problem Solving'') themes)"
    and "mset ts = add_mset ''Problem Solving'' (mset chosen)"
  shows "\<exists>rnd. select_themes_from themes rnd = Inr ts"
proof -
  define others where "others = filter (\<lambda>t. t \<noteq> ''Problem Solving'') themes"
  have sub: "mset chosen \<subseteq># mset others" using assms(2) by (simp add: others_def)
  then have "size (mset chosen) \<le> size (mset others)" by (rule size_mset_mono)
  then have len: "3 \<le> length others" using assms(1) by simp
  from sample_pool_reach [OF sub, of 0] assms(1) obtain js1 where
    js1: "\<And>rnd. (\<forall>n<3. rnd n = js1 ! n) \<Longrightarrow> sample_pool rnd 0 others 3 = chosen"
    by auto
  have "3 < length (chosen @ [''Problem Solving''])" using assms(1) by simp
  moreover have "mset ts = mset (chosen @ [''Problem Solving''])" using assms(3) by simp
  moreover have "drop (Suc 3) ts = drop (Suc 3) (chosen @ [''Problem Solving''])"
  proof -
    have "length ts = 4" using assms(1) arg_cong [OF assms(3), of size] by simp
    then show ?thesis using assms(1) by simp
  qed
  ultimately obtain js2 where
    js2: "\<And>rnd. (\<forall>n<3. rnd (3 + n) = js2 ! n)
            \<Longrightarrow> shuffle_down rnd 3 3 (chosen @ [''Problem Solving'']) = ts"
    using shuffle_down_reach [of 3 "chosen @ [''Problem Solving'']" ts 3] by blast
  define rnd where "rnd n = (if n < 3 then js1 ! n else js2 ! (n - 3))" for n
  have "sample_pool rnd 0 others 3 = chosen" by (rule js1) (simp add: rnd_def)
  moreover have "shuffle_down rnd 3 3 (chosen @ [''Problem Solving'']) = ts"
    by (rule js2) (simp add: rnd_def)
  ultimately have "select_themes_from themes rnd = Inr ts"
    using len assms(1)
    by (simp add: select_themes_from_def random_sample_def random_shuffle_def others_def Let_def)
  then show ?thesis by blast
qed

lemma THEMES_distinct: "distinct THEMES"
  by (simp add: THEMES_def)

lemma THEMES_others: "length (filter (\<lambda>t. t \<noteq> ''Problem Solving'') THEMES) = 29"
  by (simp add: THEMES_def)

text \<open>
  C9. For every random stream \<open>select_themes\<close> returns four distinct labels: the
  mandatory theme and three labels sampled without replacement from the other themes of
  the catalog. The draws decide both the sample and the final order: every arrangement
  \<open>arr\<close> of the mandatory theme with a selection \<open>sel\<close> of three other themes is the
  result for some stream. The same holds for the body on any catalog with at least three
  other themes, and on a catalog with fewer the selection raises \<^verbatim>\<open>ValueError\<close>.
\<close>

theorem select_themes_contract:
  "(\<exists>ts chosen. select_themes rnd = Inr ts \<and> length ts = 4 \<and> distinct ts
       \<and> ''Problem Solving'' \<in> set ts \<and> length chosen = 3
       \<and> mset chosen \<subseteq># mset (filter (\<lambda>t. t \<noteq> ''Problem Solving'') THEMES)
       \<and> mset ts = add_mset ''Problem Solving'' (mset chosen)) \<and>
   (length sel = 3 \<and> mset sel \<subseteq># mset (filter (\<lambda>t. t \<noteq> ''Problem Solving'') THEMES)
       \<and> mset arr = add_mset ''Problem Solving'' (mset sel)
      \<longrightarrow> (\<exists>rnd'. select_themes rnd' = Inr arr)) \<and>
   (length (filter (\<lambda>t. t \<noteq> ''Problem Solving'') themes) < 3
      \<longrightarrow> select_themes_from themes rnd = Inl ValueError) \<and>
   (3 \<le> length (filter (\<lambda>t. t \<noteq> ''Problem Solving'') themes)
      \<longrightarrow> (\<exists>ts chosen. select_themes_from themes rnd = Inr ts \<and> length ts = 4
             \<and> ''Problem Solving'' \<in> set ts \<and> length chosen = 3
             \<and> mset chosen \<subseteq># mset (filter (\<lambda>t. t \<noteq> ''Problem Solving'') themes)
             \<and> mset ts = add_mset ''Problem Solving'' (mset chosen)
             \<and> (distinct themes \<longrightarrow> distinct ts))) \<and>
   (length sel = 3 \<and> mset sel \<subseteq># mset (filter (\<lambda>t. t \<noteq> ''Problem Solving'') themes)
       \<and> mset arr = add_mset ''Problem Solving'' (mset sel)
      \<longrightarrow> (\<exists>rnd'. select_themes_from themes rnd' = Inr arr))"
proof -
  have "3 \<le> length (filter (\<lambda>t. t \<noteq> ''Problem Solving'') THEMES)"
    by (simp add: THEMES_others)
  from select_themes_from_enough [OF this, of rnd] THEMES_distinct
  have a: "\<exists>ts chosen. select_themes rnd = Inr ts \<and> length ts = 4 \<and> distinct ts
       \<and> ''Problem Solving'' \<in> set ts \<and> length chosen = 3
       \<and> mset chosen \<subseteq># mset (filter (\<lambda>t. t \<noteq> ''Problem Solving'') THEMES)
       \<and> mset ts = add_mset ''Problem Solving'' (mset chosen)"
    unfolding select_themes_def by blast
  have b: "\<exists>rnd'. select_themes rnd' = Inr arr"
    if "length sel = 3 \<and> mset sel \<subseteq># mset (filter (\<lambda>t. t \<noteq> ''Problem Solving'') THEMES)
       \<and> mset arr = add_mset ''Problem Solving'' (mset sel)"
    using that select_themes_from_reach [of sel THEMES arr] unfolding select_themes_def by blast
  have c: "\<exists>ts chosen. select_themes_from themes rnd = Inr ts \<and> length ts = 4
             \<and> ''Problem Solving'' \<in> set ts \<and> length chosen = 3
             \<and> mset chosen \<subseteq># mset (filter (\<lambda>t. t \<noteq> ''Problem Solving'') themes)
             \<and> mset ts = add_mset ''Problem Solving'' (mset chosen)
             \<and> (distinct themes \<longrightarrow> distinct ts)"
    if "3 \<le> length (filter (\<lambda>t. t \<noteq> ''Problem Solving'') themes)"
    using select_themes_from_enough [OF that, of rnd] by blast
  have d: "\<exists>rnd'. select_themes_from themes rnd' = Inr arr"
    if "length sel = 3 \<and> mset sel \<subseteq># mset (filter (\<lambda>t. t \<noteq> ''Problem Solving'') themes)
       \<and> mset arr = add_mset ''Problem Solving'' (mset sel)"
    using that select_themes_from_reach [of sel themes arr] by blast
  show ?thesis
    using a b c d select_themes_from_short [of themes rnd] by blast
qed

text \<open>
  A catalog with two other themes, one with three, and two arrangements of the
  catalog of the program: in the first the mandatory theme comes first, in the second it
  is third.
\<close>

theorem select_themes_contract_witness:
  "select_themes_from [''Space'', ''Problem Solving'', ''Love''] (\<lambda>i. 0) = Inl ValueError \<and>
   (\<exists>ts. select_themes_from [''Space'', ''Problem Solving'', ''Love'', ''Hope''] (\<lambda>i. 0) = Inr ts
      \<and> length ts = 4 \<and> distinct ts) \<and>
   (\<exists>rnd. select_themes rnd = Inr [''Problem Solving'', ''Hope'', ''Space'', ''Love'']) \<and>
   (\<exists>rnd. select_themes rnd = Inr [''Love'', ''Space'', ''Problem Solving'', ''Hope''])"
proof -
  have a: "select_themes_from [''Space'', ''Problem Solving'', ''Love''] (\<lambda>i. 0) = Inl ValueError"
    using select_themes_contract [of "\<lambda>i. 0" "[]" "[]" "[''Space'', ''Problem Solving'', ''Love'']"]
    by simp
  have b: "\<exists>ts. select_themes_from [''Space'', ''Problem Solving'', ''Love'', ''Hope''] (\<lambda>i. 0) = Inr ts
      \<and> length ts = 4 \<and> distinct ts"
    using select_themes_contract [of "\<lambda>i. 0" "[]" "[]"
        "[''Space'', ''Problem Solving'', ''Love'', ''Hope'']"]
    by simp blast
  have c: "\<exists>rnd. select_themes rnd = Inr [''Problem Solving'', ''Hope'', ''Space'', ''Love'']"
    using select_themes_contract [of "\<lambda>i. 0" "[''Space'', ''Love'', ''Hope'']"
        "[''Problem Solving'', ''Hope'', ''Space'', ''Love'']" "[]"]
    by (simp add: THEMES_def)
  have d: "\<exists>rnd. select_themes rnd = Inr [''Love'', ''Space'', ''Problem Solving'', ''Hope'']"
    using select_themes_contract [of "\<lambda>i. 0" "[''Space'', ''Love'', ''Hope'']"
        "[''Love'', ''Space'', ''Problem Solving'', ''Hope'']" "[]"]
    by (simp add: THEMES_def)
  show ?thesis using a b c d by blast
qed

section \<open>The response parser never raises\<close>

lemma dropWhile_upto: "x \<notin> set pre \<Longrightarrow> dropWhile (\<lambda>c. c \<noteq> x) (pre @ x # rest) = x # rest"
  by (induction pre) auto

lemma re_search_braces_found:
  assumes "t = pre @ CHR ''{'' # mid @ CHR ''}'' # post"
    and "CHR ''{'' \<notin> set pre" and "CHR ''}'' \<notin> set post"
  shows "re_search_braces t = Some (CHR ''{'' # mid @ [CHR ''}''])"
proof -
  have fo: "dropWhile (\<lambda>c. c \<noteq> CHR ''{'') t = CHR ''{'' # mid @ CHR ''}'' # post"
    using assms(1,2) by (simp add: dropWhile_upto)
  have "rev (CHR ''{'' # mid @ CHR ''}'' # post) = rev post @ CHR ''}'' # (rev mid @ [CHR ''{''])"
    by simp
  moreover have "CHR ''}'' \<notin> set (rev post)" using assms(3) by simp
  ultimately have "dropWhile (\<lambda>c. c \<noteq> CHR ''}'') (rev (CHR ''{'' # mid @ CHR ''}'' # post))
      = CHR ''}'' # (rev mid @ [CHR ''{''])"
    using dropWhile_upto [of "CHR ''}''" "rev post" "rev mid @ [CHR ''{'']"] by simp
  then show ?thesis unfolding re_search_braces_def Let_def fo by simp
qed

lemma re_search_braces_shape:
  assumes "re_search_braces t = Some m"
  shows "\<exists>pre mid post. t = pre @ CHR ''{'' # mid @ CHR ''}'' # post
           \<and> CHR ''{'' \<notin> set pre \<and> CHR ''}'' \<notin> set post \<and> m = CHR ''{'' # mid @ [CHR ''}'']"
proof -
  define pre where "pre = takeWhile (\<lambda>c. c \<noteq> CHR ''{'') t"
  define fo where "fo = dropWhile (\<lambda>c. c \<noteq> CHR ''{'') t"
  define tw where "tw = takeWhile (\<lambda>c. c \<noteq> CHR ''}'') (rev fo)"
  define dw where "dw = dropWhile (\<lambda>c. c \<noteq> CHR ''}'') (rev fo)"
  have m: "m = rev dw" and ne: "dw \<noteq> []"
    using assms by (auto simp: re_search_braces_def Let_def fo_def dw_def split: if_splits)
  have tx: "t = pre @ fo" by (simp add: pre_def fo_def)
  have npre: "CHR ''{'' \<notin> set pre" unfolding pre_def by (auto dest: set_takeWhileD)
  have "rev fo = tw @ dw" by (simp add: tw_def dw_def)
  then have "rev (rev fo) = rev (tw @ dw)" by simp
  then have fo: "fo = rev dw @ rev tw" by simp
  have npost: "CHR ''}'' \<notin> set (rev tw)" unfolding tw_def by (auto dest: set_takeWhileD)
  have "hd dw = CHR ''}''"
    using ne hd_dropWhile [of "\<lambda>c. c \<noteq> CHR ''}''" "rev fo"] by (simp add: dw_def)
  with ne obtain dw' where dw: "dw = CHR ''}'' # dw'" by (cases dw) auto
  have fone: "fo \<noteq> []" using fo ne by simp
  have "hd fo = CHR ''{''"
    using fone hd_dropWhile [of "\<lambda>c. c \<noteq> CHR ''{''" t] by (simp add: fo_def)
  moreover have "hd fo = hd (rev dw' @ [CHR ''}''])" using fo dw by (simp add: hd_append)
  ultimately have hdm: "hd (rev dw' @ [CHR ''}'']) = CHR ''{''" by simp
  have "rev dw' \<noteq> []"
  proof
    assume "rev dw' = []"
    with hdm show False by simp
  qed
  then obtain mid where mid: "rev dw' = CHR ''{'' # mid" using hdm by (cases "rev dw'") auto
  have "m = CHR ''{'' # mid @ [CHR ''}'']" using m dw mid by simp
  moreover have "t = pre @ CHR ''{'' # mid @ CHR ''}'' # rev tw" using tx fo dw mid by simp
  ultimately show ?thesis using npre npost by blast
qed

lemma re_search_braces_exists:
  assumes "t = a @ CHR ''{'' # b @ CHR ''}'' # c"
  shows "\<exists>m. re_search_braces t = Some m"
proof -
  define fo where "fo = dropWhile (\<lambda>x. x \<noteq> CHR ''{'') t"
  have "\<exists>x. fo = x @ CHR ''{'' # b @ CHR ''}'' # c"
  proof (cases "\<forall>y\<in>set a. y \<noteq> CHR ''{''")
    case True
    then have "fo = CHR ''{'' # b @ CHR ''}'' # c" unfolding fo_def assms by (simp add: dropWhile_upto)
    then show ?thesis by blast
  next
    case False
    then have "fo = dropWhile (\<lambda>x. x \<noteq> CHR ''{'') a @ CHR ''{'' # b @ CHR ''}'' # c"
      unfolding fo_def assms by (auto simp: dropWhile_append1)
    then show ?thesis by blast
  qed
  then have "CHR ''}'' \<in> set (rev fo)" by auto
  then have "dropWhile (\<lambda>x. x \<noteq> CHR ''}'') (rev fo) \<noteq> []" by (auto simp: dropWhile_eq_Nil_conv)
  then show ?thesis by (simp add: re_search_braces_def Let_def fo_def)
qed

lemma re_search_braces_none:
  "re_search_braces t = None \<longleftrightarrow> (\<nexists>a b c. t = a @ CHR ''{'' # b @ CHR ''}'' # c)"
proof
  assume n: "re_search_braces t = None"
  show "\<nexists>a b c. t = a @ CHR ''{'' # b @ CHR ''}'' # c"
  proof
    assume "\<exists>a b c. t = a @ CHR ''{'' # b @ CHR ''}'' # c"
    then obtain a b c where "t = a @ CHR ''{'' # b @ CHR ''}'' # c" by blast
    from re_search_braces_exists [OF this] n show False by simp
  qed
next
  assume n: "\<nexists>a b c. t = a @ CHR ''{'' # b @ CHR ''}'' # c"
  show "re_search_braces t = None"
  proof (cases "re_search_braces t")
    case None
    then show ?thesis .
  next
    case (Some m)
    from re_search_braces_shape [OF Some] n show ?thesis by blast
  qed
qed

lemma parse_json_safe_returns: "\<exists>v. parse_json_safe loads t = Inr v"
  by (simp add: parse_json_safe_def split: sum.splits option.splits)

lemmas decoder_eval =
  json_loads_def skip_ws_def scan_number_def scan_sign_def scan_int_part_def scan_frac_part_def
  scan_exp_part_def is_digit_def digits_value_def digit_value_def unescape_def Let_def

lemma parse_example:
  "parse_json_safe json_loads ''Here is the result: {\"a\":1} Thanks!'' = Inr (JObj [(''a'', JNum 1)])"
  by (simp add: parse_json_safe_def re_search_braces_def decoder_eval)

text \<open>
  C4. \<open>parse_json_safe\<close> returns a value on every text, whatever the decoder does
  and raises: the value of the direct parse when that succeeds; otherwise the value
  parsed from the substring that runs from the first opening brace to the last closing
  brace; otherwise the object tagged \<^verbatim>\<open>invalid_json\<close> when there is such a substring
  and \<^verbatim>\<open>no_json\<close> when there is none, with the raw text. The text of the
  specification's example gives the object with \<^verbatim>\<open>a\<close> bound to 1.
\<close>

theorem parse_json_safe_never_raises:
  "(\<exists>r. parse_json_safe loads t = Inr r) \<and>
   (loads t = Inr v \<longrightarrow> parse_json_safe loads t = Inr v) \<and>
   (loads t = Inl e \<and> re_search_braces t = Some m \<and> loads m = Inr v
      \<longrightarrow> parse_json_safe loads t = Inr v) \<and>
   (loads t = Inl e \<and> re_search_braces t = Some m \<and> loads m = Inl e'
      \<longrightarrow> parse_json_safe loads t = Inr (error_object ''invalid_json'' t)) \<and>
   (loads t = Inl e \<and> re_search_braces t = None
      \<longrightarrow> parse_json_safe loads t = Inr (error_object ''no_json'' t)) \<and>
   (t = pre @ CHR ''{'' # mid @ CHR ''}'' # post \<and> CHR ''{'' \<notin> set pre \<and> CHR ''}'' \<notin> set post
      \<longrightarrow> re_search_braces t = Some (CHR ''{'' # mid @ [CHR ''}''])) \<and>
   (re_search_braces t = None \<longleftrightarrow> (\<nexists>a b c. t = a @ CHR ''{'' # b @ CHR ''}'' # c)) \<and>
   error_object kind t = JObj [(''error'', JStr kind), (''raw'', JStr t)] \<and>
   parse_json_safe json_loads ''Here is the result: {\"a\":1} Thanks!'' = Inr (JObj [(''a'', JNum 1)])"
proof -
  have f: "re_search_braces t = Some (CHR ''{'' # mid @ [CHR ''}''])"
    if "t = pre @ CHR ''{'' # mid @ CHR ''}'' # post \<and> CHR ''{'' \<notin> set pre \<and> CHR ''}'' \<notin> set post"
    using that re_search_braces_found [of t pre mid post] by blast
  have a: "loads t = Inr v \<longrightarrow> parse_json_safe loads t = Inr v"
    by (simp add: parse_json_safe_def)
  have b: "loads t = Inl e \<and> re_search_braces t = Some m \<and> loads m = Inr v
      \<longrightarrow> parse_json_safe loads t = Inr v"
    by (simp add: parse_json_safe_def)
  have c: "loads t = Inl e \<and> re_search_braces t = Some m \<and> loads m = Inl e'
      \<longrightarrow> parse_json_safe loads t = Inr (error_object ''invalid_json'' t)"
    by (simp add: parse_json_safe_def)
  have d: "loads t = Inl e \<and> re_search_braces t = None
      \<longrightarrow> parse_json_safe loads t = Inr (error_object ''no_json'' t)"
    by (simp add: parse_json_safe_def)
  have g: "error_object kind t = JObj [(''error'', JStr kind), (''raw'', JStr t)]"
    by (simp add: error_object_def)
  from parse_json_safe_returns [of loads t] a b c d f re_search_braces_none [of t] g parse_example
  show ?thesis by blast
qed

text \<open>
  A text with no brace, a text whose braces hold no valid JSON, a text that is JSON, and
  the substring taken from the example of the specification.
\<close>

theorem parse_json_safe_never_raises_witness:
  "parse_json_safe json_loads ''garbage in, garbage out''
     = Inr (JObj [(''error'', JStr ''no_json''), (''raw'', JStr ''garbage in, garbage out'')]) \<and>
   parse_json_safe json_loads ''see {\"a\": 1,} here''
     = Inr (JObj [(''error'', JStr ''invalid_json''), (''raw'', JStr ''see {\"a\": 1,} here'')]) \<and>
   parse_json_safe json_loads ''{\"a\": [1, 2]} ''
     = Inr (JObj [(''a'', JArr [JNum 1, JNum 2])]) \<and>
   re_search_braces ''Here is the result: {\"a\":1} Thanks!'' = Some ''{\"a\":1}''"
proof -
  have a1: "json_loads ''garbage in, garbage out'' = Inl JSONDecodeError"
    by (simp add: decoder_eval)
  have a2: "re_search_braces ''garbage in, garbage out'' = None"
    by (simp add: re_search_braces_def)
  have b1: "json_loads ''see {\"a\": 1,} here'' = Inl JSONDecodeError"
    by (simp add: decoder_eval)
  have b2: "re_search_braces ''see {\"a\": 1,} here'' = Some ''{\"a\": 1,}''"
    by (simp add: re_search_braces_def)
  have b3: "json_loads ''{\"a\": 1,}'' = Inl JSONDecodeError"
    by (simp add: decoder_eval)
  have c1: "json_loads ''{\"a\": [1, 2]} '' = Inr (JObj [(''a'', JArr [JNum 1, JNum 2])])"
    by (simp add: decoder_eval)
  have d1: "''Here is the result: {\"a\":1} Thanks!''
      = ''Here is the result: '' @ CHR ''{'' # ''\"a\":1'' @ CHR ''}'' # '' Thanks!''"
    by simp
  have d2: "CHR ''{'' \<notin> set ''Here is the result: ''" by simp
  have d3: "CHR ''}'' \<notin> set '' Thanks!''" by simp
  have a: "parse_json_safe json_loads ''garbage in, garbage out''
      = Inr (error_object ''no_json'' ''garbage in, garbage out'')"
    using parse_json_safe_never_raises [of json_loads "''garbage in, garbage out''" JNull
        JSONDecodeError "[]" JSONDecodeError "[]" "[]" "[]" "[]"] a1 a2
    by blast
  have b: "parse_json_safe json_loads ''see {\"a\": 1,} here''
      = Inr (error_object ''invalid_json'' ''see {\"a\": 1,} here'')"
    using parse_json_safe_never_raises [of json_loads "''see {\"a\": 1,} here''" JNull
        JSONDecodeError "''{\"a\": 1,}''" JSONDecodeError "[]" "[]" "[]" "[]"] b1 b2 b3
    by blast
  have c: "parse_json_safe json_loads ''{\"a\": [1, 2]} ''
     = Inr (JObj [(''a'', JArr [JNum 1, JNum 2])])"
    using parse_json_safe_never_raises [of json_loads "''{\"a\": [1, 2]} ''"
        "JObj [(''a'', JArr [JNum 1, JNum 2])]" JSONDecodeError "[]" JSONDecodeError
        "[]" "[]" "[]" "[]"] c1
    by blast
  have d: "re_search_braces ''Here is the result: {\"a\":1} Thanks!''
      = Some (CHR ''{'' # ''\"a\":1'' @ [CHR ''}''])"
    using parse_json_safe_never_raises [of json_loads "''Here is the result: {\"a\":1} Thanks!''"
        JNull JSONDecodeError "[]" JSONDecodeError
        "''Here is the result: ''" "''\"a\":1''" "'' Thanks!''" "[]"] d1 d2 d3
    by blast
  from a b c d show ?thesis by (simp add: error_object_def)
qed

section \<open>The acceptance rule\<close>






end
